theory Spec2Isabelle
  imports Main "HOL-Library.Word" "HOL-Library.Log_Nat"
begin

unbundle bit_operations_syntax

section \<open>Host-language primitives\<close>

text \<open>
  The library is TypeScript. Strings are modelled as \<open>string\<close> (lists of 8-bit characters,
  so a string of the model is a string of code units below 256), arrays as lists, and
  integer-valued numbers as \<open>int\<close>. A number that the
  code tests with \<open>isNaN\<close> is a \<open>jsnum\<close>: \<open>NaN\<close> or a finite value, which is a
  rational number; the infinities and the negative zero are left out.
\<close>

datatype jsnum = NaN | Fin rat

text \<open>
  Values the code inspects at run time (\<open>typeof\<close>, \<open>instanceof String\<close>,
  \<open>Array.isArray\<close>). An object is the address of a cell of the heap, so that equality of
  values is the host's: by value for primitives, by reference for objects.
\<close>

datatype jsval = JUndefined | JNull | JBool bool | JNum jsnum | JStr string | JObject nat

datatype jsobj = StringObj string | ArrayObj "jsval list" | FunctionObj | PlainObj

type_synonym heap = "nat \<Rightarrow> jsobj"

datatype jserror = RangeError

text \<open>
  How a call ends: it returns a value (\<open>Return JUndefined\<close> is a \<open>return;\<close> or the end
  of the body), returns a freshly built array, or throws. An outcome pairs the messages
  written with \<open>console.error\<close>, in order, with the completion.
\<close>

datatype completion = Return jsval | ReturnNewArray "jsval list" | Throw jserror

type_synonym outcome = "string list \<times> completion"

fun isNaN :: "jsnum \<Rightarrow> bool" where
  "isNaN NaN = True"
| "isNaN (Fin r) = False"

fun typeof :: "heap \<Rightarrow> jsval \<Rightarrow> string" where
  "typeof h JUndefined = ''undefined''"
| "typeof h JNull = ''object''"
| "typeof h (JBool b) = ''boolean''"
| "typeof h (JNum n) = ''number''"
| "typeof h (JStr s) = ''string''"
| "typeof h (JObject a) = (case h a of FunctionObj \<Rightarrow> ''function'' | _ \<Rightarrow> ''object'')"

text \<open>\<^verbatim>\<open>typeof text === "string" || text instanceof String\<close>, and the characters of such a value.\<close>

fun is_string :: "heap \<Rightarrow> jsval \<Rightarrow> bool" where
  "is_string h (JStr s) = True"
| "is_string h (JObject a) = (case h a of StringObj s \<Rightarrow> True | _ \<Rightarrow> False)"
| "is_string h v = False"

fun string_of :: "heap \<Rightarrow> jsval \<Rightarrow> string" where
  "string_of h (JStr s) = s"
| "string_of h (JObject a) = (case h a of StringObj s \<Rightarrow> s | _ \<Rightarrow> [])"
| "string_of h v = []"

text \<open>
  \<open>Array(n)\<close> for a number \<open>n\<close>: an array of \<open>n\<close> empty slots when \<open>n\<close> is an integer
  in \<open>0 .. 2^32 - 1\<close>, a RangeError otherwise. \<open>Array.from\<close> turns the slots into
  \<open>undefined\<close> entries.
\<close>

definition Array_from_Array :: "rat \<Rightarrow> jsval list option" where
  "Array_from_Array n =
     (if n = of_int \<lfloor>n\<rfloor> \<and> 0 \<le> n \<and> n < 2 ^ 32
      then Some (replicate (nat \<lfloor>n\<rfloor>) JUndefined) else None)"

text \<open>Conversion of a number to an integer index: truncation towards zero.\<close>

definition toInteger :: "rat \<Rightarrow> int" where
  "toInteger r = (if r < 0 then \<lceil>r\<rceil> else \<lfloor>r\<rfloor>)"

subsection \<open>Characters\<close>

definition charCode :: "char \<Rightarrow> nat" where
  "charCode c = of_char c"

definition is_upper :: "char \<Rightarrow> bool" where
  "is_upper c = (65 \<le> charCode c \<and> charCode c \<le> 90)"

definition is_lower :: "char \<Rightarrow> bool" where
  "is_lower c = (97 \<le> charCode c \<and> charCode c \<le> 122)"

definition is_digit :: "char \<Rightarrow> bool" where
  "is_digit c = (48 \<le> charCode c \<and> charCode c \<le> 57)"

text \<open>The word characters of the regular expressions: letters, digits and the underscore.\<close>

definition is_word :: "char \<Rightarrow> bool" where
  "is_word c = (is_upper c \<or> is_lower c \<or> is_digit c \<or> c = CHR ''_'')"

text \<open>
  \<open>toLowerCase\<close> on code units below 256: the letters \<open>A\<close> to \<open>Z\<close> and the Latin-1 capitals
  (192 to 222 without the multiplication sign 215) have their lowercase 32 further.
\<close>

definition has_lower :: "char \<Rightarrow> bool" where
  "has_lower c =
     (is_upper c \<or> (192 \<le> charCode c \<and> charCode c \<le> 222 \<and> charCode c \<noteq> 215))"

definition toLowerCase :: "string \<Rightarrow> string" where
  "toLowerCase s = map (\<lambda>c. if has_lower c then char_of (charCode c + 32) else c) s"

text \<open>
  \<open>toUpperCase\<close> on the ASCII letters; the source calls it on a separator followed by a
  letter \<open>a\<close> to \<open>z\<close> only.
\<close>

definition toUpperCase :: "string \<Rightarrow> string" where
  "toUpperCase s = map (\<lambda>c. if is_lower c then char_of (charCode c - 32) else c) s"

subsection \<open>Array.prototype.slice and String.prototype.slice\<close>

text \<open>
  \<open>xs.slice(start, end)\<close>: a negative index counts from the end, every index is clamped
  to \<open>0 .. xs.length\<close>, and an empty range gives the empty sequence.
\<close>

definition js_index :: "int \<Rightarrow> int \<Rightarrow> int" where
  "js_index len k = (if k < 0 then max (len + k) 0 else min k len)"

definition js_slice :: "'a list \<Rightarrow> int \<Rightarrow> int \<Rightarrow> 'a list" where
  "js_slice xs start end =
     (let len = int (length xs);
          from = js_index len start;
          to = js_index len end
      in take (nat (to - from)) (drop (nat from) xs))"

definition js_slice_from :: "'a list \<Rightarrow> int \<Rightarrow> 'a list" where
  "js_slice_from xs start = js_slice xs start (int (length xs))"

subsection \<open>Number.prototype.toString on integers\<close>

definition digit_char :: "nat \<Rightarrow> char" where
  "digit_char d = ''0123456789abcdef'' ! d"

text \<open>
  \<open>n.toString(radix)\<close> for a natural number \<open>n\<close>, most significant digit first.
\<close>

function nat_toString :: "nat \<Rightarrow> nat \<Rightarrow> string" where
  "nat_toString radix n =
     (if n < radix \<and> 2 \<le> radix \<or> radix < 2 then [digit_char n]
      else nat_toString radix (n div radix) @ [digit_char (n mod radix)])"
  by pat_completeness auto
termination
  by (relation "measure (\<lambda>(radix, n). n)") auto

declare nat_toString.simps [simp del]

text \<open>
  \<open>number.toString()\<close> for a safe integer, one of magnitude below \<open>2^53\<close>: decimal notation
  with a leading minus sign for a negative value.
\<close>

definition toString :: "int \<Rightarrow> string" where
  "toString number =
     (if number < 0 then CHR ''-'' # nat_toString 10 (nat (- number))
      else nat_toString 10 (nat number))"

text \<open>
  \<open>number.toString()\<close> for any integer-valued number. Beyond the safe integers the host
  prints the shortest digits that read back as the same number, filled up with zeros, and
  from \<open>10^21\<close> on with an exponent (\<open>"1e+21"\<close>). That notation is not modelled: it is
  the parameter \<open>beyond\<close>, which stands for any such function.
\<close>

definition Number_toString :: "(int \<Rightarrow> string) \<Rightarrow> int \<Rightarrow> string" where
  "Number_toString beyond number =
     (if \<bar>number\<bar> < 2 ^ 53 then toString number else beyond number)"

subsection \<open>Arithmetic of numbers\<close>

text \<open>
  A finite number of the host is a binary floating-point value with 53 significant bits,
  hence a rational, and each arithmetic operation gives the representable value nearest
  to the exact result, a tie going to the even significand. \<open>binade x\<close> is the exponent
  \<open>e\<close> with \<open>2^e \<le> x < 2^(e+1)\<close> of a positive \<open>x\<close>. The exponent range is not bounded in
  the model: a result beyond the largest number, which the host turns into an infinity,
  and the subnormal numbers are left out.
\<close>

definition pow2 :: "int \<Rightarrow> rat" where
  "pow2 e = (if 0 \<le> e then 2 ^ nat e else 1 / 2 ^ nat (- e))"

definition binade :: "rat \<Rightarrow> int" where
  "binade x = (if 1 \<le> x then bitlen \<lfloor>x\<rfloor> - 1 else - bitlen (\<lceil>1 / x\<rceil> - 1))"

definition round_half_even :: "rat \<Rightarrow> int" where
  "round_half_even x =
     (let f = \<lfloor>x\<rfloor>; d = x - of_int f
      in if d < 1 / 2 then f else if 1 / 2 < d then f + 1 else if even f then f else f + 1)"

definition fl :: "rat \<Rightarrow> rat" where
  "fl x =
     (if x = 0 then 0
      else (let u = pow2 (binade \<bar>x\<bar> - 52)
            in sgn x * of_int (round_half_even (\<bar>x\<bar> / u)) * u))"

definition js_add :: "rat \<Rightarrow> rat \<Rightarrow> rat" where
  "js_add x y = fl (x + y)"

definition js_sub :: "rat \<Rightarrow> rat \<Rightarrow> rat" where
  "js_sub x y = fl (x - y)"

definition js_mul :: "rat \<Rightarrow> rat \<Rightarrow> rat" where
  "js_mul x y = fl (x * y)"

definition js_div :: "rat \<Rightarrow> rat \<Rightarrow> rat" where
  "js_div x y = fl (x / y)"

section \<open>sizedDecimal\<close>

text \<open>
  \<^verbatim>\<open>for (let i = 0; i < length; i += 1) { pre += "0"; }\<close>
\<close>

function sizedDecimal_loop :: "int \<Rightarrow> int \<Rightarrow> string \<Rightarrow> string" where
  "sizedDecimal_loop i len pre =
     (if i < len then sizedDecimal_loop (i + 1) len (pre @ ''0'') else pre)"
  by pat_completeness auto
termination
  by (relation "measure (\<lambda>(i, len, pre). nat (len - i))") auto

declare sizedDecimal_loop.simps [simp del]

definition sizedDecimal :: "(int \<Rightarrow> string) \<Rightarrow> int \<Rightarrow> int \<Rightarrow> string" where
  "sizedDecimal beyond number len =
     (let pre = sizedDecimal_loop 0 len '''';
          joined = pre @ Number_toString beyond number
      in js_slice_from joined (int (length joined) - len))"

section \<open>chunk\<close>

text \<open>
  \<^verbatim>\<open>for (let i = 0; i < array.length; i += size) { result.push(array.slice(i, i + size)); }\<close>
  The source puts no bound on \<open>size\<close>, so the loop need not end: it is a partial function,
  and \<open>None\<close> is the run that never returns. The chunk size is an integer, on which the
  index arithmetic is exact, and the result array can grow without bound.
\<close>

partial_function (option) chunk_loop ::
  "'a list \<Rightarrow> int \<Rightarrow> int \<Rightarrow> 'a list list \<Rightarrow> 'a list list option" where
  "chunk_loop array sz i result =
     (if i < int (length array)
      then chunk_loop array sz (i + sz) (result @ [js_slice array i (i + sz)])
      else Some result)"

definition chunk :: "'a list \<Rightarrow> int \<Rightarrow> 'a list list option" where
  "chunk array sz = chunk_loop array sz 0 []"

text \<open>The part of the array that the loop has not reached yet.\<close>

definition chunk_remaining :: "'a list \<Rightarrow> int \<Rightarrow> nat" where
  "chunk_remaining array i = nat (int (length array) - i)"

section \<open>times\<close>

text \<open>
  \<open>forEach\<close> with a callback that ignores the element and calls \<open>func()\<close>. The effect of
  one call of \<open>func\<close> is a transformer \<open>body\<close> of a state \<open>'s\<close>, so that the number of
  invocations can be read from the state.
\<close>

fun forEach :: "('s \<Rightarrow> 's) \<Rightarrow> jsval list \<Rightarrow> 's \<Rightarrow> 's" where
  "forEach body [] s = s"
| "forEach body (x # xs) s = forEach body xs (body s)"

definition times :: "heap \<Rightarrow> jsnum \<Rightarrow> jsval \<Rightarrow> ('s \<Rightarrow> 's) \<Rightarrow> 's \<Rightarrow> outcome \<times> 's" where
  "times h n func body s =
     (case n of
        NaN \<Rightarrow> (([''times to run must be specified''], Return JUndefined), s)
      | Fin r \<Rightarrow>
          if typeof h func \<noteq> ''function''
          then (([''func must be a valid function, '' @ typeof h func @ '' provided''],
                 Return JUndefined), s)
          else (case Array_from_Array r of
                  None \<Rightarrow> (([], Throw RangeError), s)
                | Some slots \<Rightarrow> (([], Return JUndefined), forEach body slots s)))"

section \<open>getRandomNumberInRange\<close>

text \<open>
  \<open>random\<close> is the number that \<open>Math.random()\<close> returns in the call. \<open>Math.ceil\<close> and
  \<open>Math.floor\<close> are exact; the subtraction, the two additions and the product are those
  of numbers, each rounded. For bounds so far apart that the width exceeds the largest
  number the host continues with an infinity, which is outside this model.
\<close>

definition getRandomNumberInRange :: "jsnum \<Rightarrow> jsnum \<Rightarrow> rat \<Rightarrow> outcome" where
  "getRandomNumberInRange lower upper random =
     (case (lower, upper) of
        (Fin lo, Fin up) \<Rightarrow>
          (let lower' = rat_of_int \<lceil>lo\<rceil>;
               upper' = rat_of_int \<lfloor>up\<rfloor>
           in ([], Return (JNum (Fin
                 (js_add
                    (rat_of_int \<lfloor>js_mul random (js_add (js_sub upper' lower') 1)\<rfloor>)
                    lower')))))
      | _ \<Rightarrow> ([''lower and upper must be valid numbers''], Return JUndefined))"

section \<open>shorten\<close>

definition shorten :: "heap \<Rightarrow> jsval \<Rightarrow> jsnum \<Rightarrow> jsnum \<Rightarrow> outcome" where
  "shorten h text len ellipsisCount =
     (if \<not> is_string h text
      then ([''expecting a string, '' @ typeof h text @ '' provided''], Return (JStr []))
      else (case (len, ellipsisCount) of
              (Fin l, Fin e) \<Rightarrow>
                if rat_of_nat (length (string_of h text)) \<le> l then ([], Return text)
                else (case Array_from_Array e of
                        None \<Rightarrow> ([], Throw RangeError)
                      | Some slots \<Rightarrow>
                          (let ellipsis = concat (map (\<lambda>_. ''.'') slots)
                           in ([], Return (JStr
                                 (js_slice (string_of h text) 0 (toInteger l) @ ellipsis)))))
            | _ \<Rightarrow> ([''length and ellipsisCount must be valid numbers''], Return JUndefined)))"

section \<open>removeDuplicates\<close>

text \<open>
  \<open>new Set(arr)\<close> adds the elements in order and keeps an element that is already present
  where it is; spreading the set lists it in insertion order.
\<close>

definition Set_add :: "jsval list \<Rightarrow> jsval \<Rightarrow> jsval list" where
  "Set_add entries v = (if v \<in> set entries then entries else entries @ [v])"

definition new_Set :: "jsval list \<Rightarrow> jsval list" where
  "new_Set arr = foldl Set_add [] arr"

text \<open>\<open>Array.isArray(arr)\<close>, and the elements of such a value.\<close>

fun isArray :: "heap \<Rightarrow> jsval \<Rightarrow> bool" where
  "isArray h (JObject a) = (case h a of ArrayObj elems \<Rightarrow> True | _ \<Rightarrow> False)"
| "isArray h v = False"

fun elements_of :: "heap \<Rightarrow> jsval \<Rightarrow> jsval list" where
  "elements_of h (JObject a) = (case h a of ArrayObj elems \<Rightarrow> elems | _ \<Rightarrow> [])"
| "elements_of h v = []"

definition removeDuplicates :: "heap \<Rightarrow> jsval \<Rightarrow> outcome" where
  "removeDuplicates h arr =
     (if \<not> isArray h arr
      then ([''array expected, '' @ typeof h arr @ '' provided''], Return JUndefined)
      else ([], ReturnNewArray (new_Set (elements_of h arr))))"

section \<open>slugify\<close>

definition slugify :: "heap \<Rightarrow> jsval \<Rightarrow> outcome" where
  "slugify h text =
     (if \<not> is_string h text
      then ([''string expected, '' @ typeof h text @ '' provided''], Return text)
      else ([], Return (JStr
              (filter (\<lambda>c. is_word c \<or> c = CHR ''-'')
                 (map (\<lambda>c. if c = CHR '' '' then CHR ''-'' else c)
                    (toLowerCase (string_of h text)))))))"

section \<open>camelToSnakeCase and snakeToCamelCase\<close>

text \<open>\<^verbatim>\<open>text.replace(/[A-Z]/g, (letter) => `_${letter.toLowerCase()}`)\<close>\<close>

definition camel_replace :: "string \<Rightarrow> string" where
  "camel_replace text =
     concat (map (\<lambda>letter. if is_upper letter then CHR ''_'' # toLowerCase [letter] else [letter]) text)"

definition camelToSnakeCase :: "heap \<Rightarrow> jsval \<Rightarrow> outcome" where
  "camelToSnakeCase h text =
     (if \<not> is_string h text
      then ([''string expected, '' @ typeof h text @ '' provided''], Return text)
      else ([], Return (JStr (camel_replace (string_of h text)))))"

text \<open>
  \<^verbatim>\<open>.replace(/([-_][a-z])/g, (group) => group.toUpperCase().replace("-", "").replace("_", ""))\<close>:
  the matches are found from left to right and do not overlap; \<open>replace\<close> with a string
  pattern removes its first occurrence, which is \<open>remove1\<close>.
\<close>

fun snake_replace :: "string \<Rightarrow> string" where
  "snake_replace (a # b # rest) =
     (if (a = CHR ''-'' \<or> a = CHR ''_'') \<and> is_lower b
      then remove1 CHR ''_'' (remove1 CHR ''-'' (toUpperCase [a, b])) @ snake_replace rest
      else a # snake_replace (b # rest))"
| "snake_replace text = text"

definition snakeToCamelCase :: "heap \<Rightarrow> jsval \<Rightarrow> outcome" where
  "snakeToCamelCase h text =
     (if \<not> is_string h text
      then ([''string expected, '' @ typeof h text @ '' provided''], Return text)
      else ([], Return (JStr (snake_replace (toLowerCase (string_of h text))))))"

section \<open>stringToColor\<close>

text \<open>
  \<open>hash\<close> is a number, not a 32-bit integer: the shifts convert their left operand to a
  signed 32-bit integer and give one, the subtraction and the addition are those of
  numbers (exact on these magnitudes).
\<close>

definition toInt32 :: "int \<Rightarrow> 32 word" where
  "toInt32 x = word_of_int x"

definition shl :: "int \<Rightarrow> nat \<Rightarrow> int" where
  "shl x k = sint (push_bit k (toInt32 x))"

definition sar :: "int \<Rightarrow> nat \<Rightarrow> int" where
  "sar x k = sint (signed_drop_bit k (toInt32 x))"

text \<open>\<open>a & b\<close> on numbers: both sides as 32-bit integers.\<close>

definition bitand :: "int \<Rightarrow> int \<Rightarrow> int" where
  "bitand a b = sint (toInt32 a AND toInt32 b)"

text \<open>
  \<^verbatim>\<open>for (let i = 0; i < text.length; i += 1) { hash = text.charCodeAt(i) + ((hash << 5) - hash); }\<close>
  as a recursion over the characters that remain.
\<close>

fun hash_loop :: "string \<Rightarrow> int \<Rightarrow> int" where
  "hash_loop [] hash = hash"
| "hash_loop (c # cs) hash = hash_loop cs (int (charCode c) + (shl hash 5 - hash))"

text \<open>\<open>s.substr(-2)\<close>: the last two characters, or all of a shorter string.\<close>

definition substr_last2 :: "string \<Rightarrow> string" where
  "substr_last2 s = js_slice_from s (- 2)"

function color_loop :: "nat \<Rightarrow> int \<Rightarrow> string \<Rightarrow> string" where
  "color_loop i hash color =
     (if i < 3
      then (let v = bitand (sar hash (i * 8)) 255
            in color_loop (i + 1) hash (color @ substr_last2 (''00'' @ nat_toString 16 (nat v))))
      else color)"
  by pat_completeness auto
termination
  by (relation "measure (\<lambda>(i, hash, color). 3 - i)") auto

declare color_loop.simps [simp del]

definition stringToColor :: "heap \<Rightarrow> jsval \<Rightarrow> outcome" where
  "stringToColor h text =
     (if \<not> is_string h text
      then ([''string expected, '' @ typeof h text @ '' provided''], Return text)
      else ([], Return (JStr (color_loop 0 (hash_loop (string_of h text) 0) ''#''))))"

section \<open>getTimeBetween\<close>

subsection \<open>The function\<close>

record 'a units =
  year :: 'a
  month :: 'a
  day :: 'a
  hour :: 'a
  minute :: 'a
  second :: 'a

text \<open>
  The products are evaluated from left to right; the literals \<open>365.25\<close> and \<open>30.44\<close> are
  the numbers nearest to these decimals.
\<close>

definition intervals :: "rat units" where
  "intervals =
     \<lparr> year = js_mul (js_mul (js_mul (js_mul (fl (36525 / 100)) 24) 60) 60) 1000,
       month = js_mul (js_mul (js_mul (js_mul (fl (3044 / 100)) 24) 60) 60) 1000,
       day = js_mul (js_mul (js_mul 24 60) 60) 1000,
       hour = js_mul (js_mul 60 60) 1000,
       minute = js_mul 60 1000,
       second = 1000 \<rparr>"

definition elapsed :: "rat \<Rightarrow> int units" where
  "elapsed timeDiff =
     \<lparr> year = \<lfloor>js_div timeDiff (year intervals)\<rfloor>,
       month = \<lfloor>js_div timeDiff (month intervals)\<rfloor>,
       day = \<lfloor>js_div timeDiff (day intervals)\<rfloor>,
       hour = \<lfloor>js_div timeDiff (hour intervals)\<rfloor>,
       minute = \<lfloor>js_div timeDiff (minute intervals)\<rfloor>,
       second = \<lfloor>js_div timeDiff (second intervals)\<rfloor> \<rparr>"

text \<open>
  The two arguments are the time values (\<open>getTime()\<close>, in milliseconds) of two valid dates.
\<close>

definition getTimeBetween :: "int \<Rightarrow> int \<Rightarrow> string" where
  "getTimeBetween firstDate secondDate =
     (let timeDiff = \<bar>js_sub (of_int firstDate) (of_int secondDate)\<bar>;
          e = elapsed timeDiff;
          (timeUnit, timeValue) =
            (if year e > 0 then (''year'', year e)
             else if month e > 0 then (''month'', month e)
             else if day e > 0 then (''day'', day e)
             else if hour e > 0 then (''hour'', hour e)
             else if minute e > 0 then (''minute'', minute e)
             else (''second'', second e))
      in toString timeValue @ '' '' @ timeUnit @ (if timeValue \<noteq> 1 then ''s'' else []))"

subsection \<open>The function as the specification words it\<close>

text \<open>
  The specification: the absolute difference in milliseconds; counts with a year of 365.25
  days and a month of 30.44 days, the other units exact; the largest unit with a nonzero
  count, in the order year, month, day, hour, minute, second, and the second when every
  count is zero; the count, a space, the unit, and an \<open>s\<close> when the count is not 1.
\<close>

definition spec_intervals :: "(string \<times> rat) list" where
  "spec_intervals =
     [(''year'', 36525 / 100 * 24 * 60 * 60 * 1000),
      (''month'', 3044 / 100 * 24 * 60 * 60 * 1000),
      (''day'', 24 * 60 * 60 * 1000),
      (''hour'', 60 * 60 * 1000),
      (''minute'', 60 * 1000),
      (''second'', 1000)]"

definition spec_getTimeBetween :: "int \<Rightarrow> int \<Rightarrow> string" where
  "spec_getTimeBetween firstDate secondDate =
     (let timeDiff = \<bar>firstDate - secondDate\<bar>;
          counts = map (\<lambda>(u, ms). (u, \<lfloor>of_int timeDiff / ms\<rfloor>)) spec_intervals;
          (timeUnit, timeValue) =
            (case find (\<lambda>(u, c). c \<noteq> 0) counts of
               Some p \<Rightarrow> p
             | None \<Rightarrow> (''second'', 0))
      in toString timeValue @ '' '' @ timeUnit @ (if timeValue \<noteq> 1 then ''s'' else []))"

section \<open>Notions used in the properties\<close>

text \<open>The position of the first occurrence of \<open>x\<close> in \<open>xs\<close> (the length of \<open>xs\<close> if there is none).\<close>

definition first_index :: "'a list \<Rightarrow> 'a \<Rightarrow> nat" where
  "first_index xs x = length (takeWhile (\<lambda>y. y \<noteq> x) xs)"

text \<open>The elements of \<open>xs\<close> that are neither in \<open>seen\<close> nor earlier in \<open>xs\<close>, in order.\<close>

fun fresh :: "jsval list \<Rightarrow> jsval list \<Rightarrow> jsval list" where
  "fresh seen [] = []"
| "fresh seen (x # xs) = (if x \<in> set seen then fresh seen xs else x # fresh (seen @ [x]) xs)"

subsection \<open>stringToColor as the specification words it\<close>






section \<open>Properties of sizedDecimal\<close>

lemma sizedDecimal_loop_eq:
  "sizedDecimal_loop i len pre = pre @ replicate (nat (len - i)) CHR ''0''"
proof (induction i len pre rule: sizedDecimal_loop.induct)
  case (1 i len pre)
  show ?case
  proof (cases "i < len")
    case True
    then have "nat (len - i) = Suc (nat (len - (i + 1)))" by simp
    with True 1 show ?thesis
      by (simp add: sizedDecimal_loop.simps [of i] replicate_app_Cons_same)
  next
    case False
    then show ?thesis by (simp add: sizedDecimal_loop.simps [of i])
  qed
qed

lemma js_slice_from_suffix:
  "js_slice_from (xs @ ys) (int (length (xs @ ys)) - len) = drop (length (xs @ ys) - nat len) (xs @ ys)"
  if "int (length xs) = max len 0"
  using that by (auto simp: js_slice_from_def js_slice_def js_index_def Let_def max_def min_def split: if_splits)

lemma sizedDecimal_eq:
  "sizedDecimal beyond number len =
     drop (length (replicate (nat len) CHR ''0'' @ Number_toString beyond number) - nat len)
       (replicate (nat len) CHR ''0'' @ Number_toString beyond number)"
proof -
  have pre: "sizedDecimal_loop 0 len '''' = replicate (nat len) CHR ''0''"
    by (simp add: sizedDecimal_loop_eq)
  show ?thesis
    unfolding sizedDecimal_def Let_def pre
    by (rule js_slice_from_suffix) (simp add: max_def)
qed

lemma toString_examples:
  "Number_toString beyond 5 = ''5''" "Number_toString beyond 12345 = ''12345''"
  by (simp_all add: Number_toString_def toString_def nat_toString.simps digit_char_def)

text \<open>
  Claim C6. For every integer \<open>number\<close> and every width \<open>len\<close>, \<open>sizedDecimal number len\<close>
  is the last \<open>len\<close> characters of \<open>len\<close> zeros followed by the string form of the
  number, whatever notation the host uses beyond the safe integers: it has exactly \<open>len\<close>
  characters, and a string form longer than the width loses its leading characters.
  \<open>sizedDecimal(5, 3)\<close> is \<open>"005"\<close> and \<open>sizedDecimal(12345, 3)\<close> is \<open>"345"\<close>. (A negative
  width behaves as the width 0.)
\<close>

theorem sizedDecimal_suffix:
  "sizedDecimal beyond number len =
     drop (length (replicate (nat len) CHR ''0'' @ Number_toString beyond number) - nat len)
       (replicate (nat len) CHR ''0'' @ Number_toString beyond number)
   \<and> length (sizedDecimal beyond number len) = nat len
   \<and> sizedDecimal beyond 5 3 = ''005''
   \<and> sizedDecimal beyond 12345 3 = ''345''"
proof -
  have b: "length (sizedDecimal beyond number len) = nat len"
    by (simp add: sizedDecimal_eq)
  have c: "sizedDecimal beyond 5 3 = ''005''"
    by (simp add: sizedDecimal_eq toString_examples numeral_3_eq_3)
  have d: "sizedDecimal beyond 12345 3 = ''345''"
    by (simp add: sizedDecimal_eq toString_examples numeral_3_eq_3)
  from sizedDecimal_eq [of beyond number len] b c d show ?thesis by blast
qed

section \<open>Properties of chunk\<close>

lemma chunk_loop_terminates:
  assumes "1 \<le> sz" "0 \<le> i"
  shows "\<exists>t. chunk_loop array sz i result = Some (result @ t)
           \<and> concat t = drop (nat i) array
           \<and> (\<forall>c \<in> set (butlast t). int (length c) = sz)
           \<and> [] \<notin> set t"
  using assms(2)
proof (induction "nat (int (length array) - i)" arbitrary: i result rule: less_induct)
  case less
  show ?case
  proof (cases "i < int (length array)")
    case False
    then show ?thesis
      by (subst chunk_loop.simps) simp
  next
    case True
    let ?c = "js_slice array i (i + sz)"
    have c: "?c = take (nat sz) (drop (nat i) array)"
      using True less.prems assms(1)
      by (auto simp: js_slice_def js_index_def Let_def min_def)
    have "nat (int (length array) - (i + sz)) < nat (int (length array) - i)"
      using True assms(1) by simp
    moreover have "0 \<le> i + sz" using less.prems assms(1) by simp
    ultimately obtain t where t: "chunk_loop array sz (i + sz) (result @ [?c]) = Some ((result @ [?c]) @ t)"
      "concat t = drop (nat (i + sz)) array"
      "\<forall>c \<in> set (butlast t). int (length c) = sz" "[] \<notin> set t"
      using less.hyps [of "i + sz" "result @ [?c]"] by blast
    have ne: "?c \<noteq> []" using True less.prems assms(1) by (simp add: c)
    have len: "t \<noteq> [] \<Longrightarrow> int (length ?c) = sz"
    proof -
      assume "t \<noteq> []"
      with t(4) have "concat t \<noteq> []" by (cases t) auto
      with t(2) have "nat (i + sz) < length array" by simp
      then show ?thesis using less.prems assms(1) unfolding c by (simp add: nat_add_distrib)
    qed
    have "chunk_loop array sz i result = Some (result @ (?c # t))"
      using True t(1) by (subst chunk_loop.simps) simp
    moreover have "concat (?c # t) = drop (nat i) array"
    proof -
      have "drop (nat (i + sz)) array = drop (nat sz) (drop (nat i) array)"
        using less.prems assms(1) by (simp add: nat_add_distrib add.commute)
      then show ?thesis unfolding concat.simps c t(2) by (simp only: append_take_drop_id)
    qed
    moreover have "\<forall>c \<in> set (butlast (?c # t)). int (length c) = sz"
      using t(3) len by auto
    moreover have "[] \<notin> set (?c # t)" using ne t(4) by auto
    ultimately show ?thesis by blast
  qed
qed

lemma chunk_loop_diverges:
  assumes "chunk_loop array sz i result = Some r"
  shows "1 \<le> sz \<or> \<not> i < int (length array)"
proof (rule chunk_loop.raw_induct [where P = "\<lambda>array sz i result r. 1 \<le> sz \<or> \<not> i < int (length array)", OF _ assms])
  fix chunk_loop' :: "'a list \<Rightarrow> int \<Rightarrow> int \<Rightarrow> 'a list list \<Rightarrow> 'a list list option" and array sz i result r
  assume "\<And>array sz i result r. chunk_loop' array sz i result = Some r \<Longrightarrow> 1 \<le> sz \<or> \<not> i < int (length array)"
    and "(if i < int (length array)
      then chunk_loop' array sz (i + sz) (result @ [js_slice array i (i + sz)])
      else Some result) = Some r"
  then show "1 \<le> sz \<or> \<not> i < int (length array)"
    by (fastforce split: if_splits)
qed


lemma chunk_returns:
  assumes "1 \<le> sz \<or> array = []"
  shows "\<exists>result. chunk array sz = Some result \<and> concat result = array
           \<and> (\<forall>c \<in> set (butlast result). int (length c) = sz)"
proof (cases "array = []")
  case True
  then have "chunk array sz = Some []"
    unfolding chunk_def by (subst chunk_loop.simps) simp
  with True show ?thesis by simp
next
  case False
  with assms have "1 \<le> sz" by simp
  from chunk_loop_terminates [OF this, of 0 array "[]"] show ?thesis
    by (auto simp: chunk_def)
qed

lemma chunk_no_result:
  assumes "sz \<le> 0" "array \<noteq> []"
  shows "chunk array sz = None"
proof (cases "chunk array sz")
  case None
  then show ?thesis .
next
  case (Some r)
  then have "1 \<le> sz \<or> \<not> 0 < int (length array)"
    unfolding chunk_def by (rule chunk_loop_diverges)
  with assms show ?thesis by simp
qed

lemma chunk_example: "chunk [1, 2, 3, 4, 5 :: int] 2 = Some [[1, 2], [3, 4], [5]]"
  by (simp add: chunk_def chunk_loop.simps js_slice_def js_index_def)

text \<open>
  Claim C2, as the code has it. For every array and every size that is at least 1 (or any
  size when the array is empty), \<open>chunk\<close> returns, the concatenation of the chunks in order
  is the array, and every chunk but the last has exactly \<open>size\<close> elements;
  \<open>chunk([1,2,3,4,5], 2)\<close> is \<open>[[1,2],[3,4],[5]]\<close>.
\<close>

theorem chunk_concat:
  assumes "1 \<le> sz \<or> array = []"
  shows "(\<exists>result. chunk array sz = Some result \<and> concat result = array
            \<and> (\<forall>c \<in> set (butlast result). int (length c) = sz))
         \<and> chunk [1, 2, 3, 4, 5 :: int] 2 = Some [[1, 2], [3, 4], [5]]"
  using chunk_returns [OF assms] chunk_example by simp

theorem chunk_concat_witness:
  "(1 \<le> (2 :: int) \<or> [7, 8, 9 :: int] = [])
   \<and> (\<exists>result. chunk [7, 8, 9 :: int] 2 = Some result \<and> concat result = [7, 8, 9]
         \<and> list_all (\<lambda>c. int (length c) = 2) (butlast result))"
  using chunk_concat [of 2 "[7, 8, 9 :: int]"] by (simp add: list_all_iff)

text \<open>
  The claim as stated, for every size, fails: on a non-empty array with the size 0 the
  call never returns, so there are no chunks to concatenate.
\<close>

theorem chunk_size_zero_counterexample: "chunk [1 :: int] 0 = None"
  by (rule chunk_no_result) simp_all

text \<open>
  Claim C10. \<open>chunk array size\<close> returns exactly when \<open>size \<ge> 1\<close> or the array is empty.
  With \<open>size \<ge> 1\<close> each turn of the loop strictly decreases what remains of the array,
  \<open>array.length - i\<close>; with \<open>size \<le> 0\<close> and a non-empty array the index never reaches
  \<open>array.length\<close> and the call does not return.
\<close>

theorem chunk_terminates_iff:
  "((\<exists>result. chunk array sz = Some result) \<longleftrightarrow> 1 \<le> sz \<or> array = [])
   \<and> (1 \<le> sz \<and> i < int (length array)
        \<longrightarrow> chunk_remaining array (i + sz) < chunk_remaining array i)"
proof -
  have "\<exists>result. chunk array sz = Some result" if "1 \<le> sz \<or> array = []"
    using chunk_returns [OF that] by blast
  moreover have "1 \<le> sz \<or> array = []" if "\<exists>result. chunk array sz = Some result"
  proof (rule ccontr)
    assume "\<not> (1 \<le> sz \<or> array = [])"
    then have "chunk array sz = None" by (intro chunk_no_result) simp_all
    with that show False by simp
  qed
  moreover have "chunk_remaining array (i + sz) < chunk_remaining array i"
    if "1 \<le> sz \<and> i < int (length array)"
    using that by (simp add: chunk_remaining_def)
  ultimately show ?thesis by blast
qed

theorem chunk_terminates_iff_witness:
  "(\<exists>result. chunk [7, 8, 9 :: int] 2 = Some result)
   \<and> \<not> (\<exists>result. chunk [7, 8, 9 :: int] (- 1) = Some result)
   \<and> chunk_remaining [7, 8, 9 :: int] (0 + 2) < chunk_remaining [7, 8, 9 :: int] 0"
  using chunk_terminates_iff [of "[7, 8, 9 :: int]" 2 0]
    chunk_terminates_iff [of "[7, 8, 9 :: int]" "- 1" 0]
  by simp


section \<open>Properties of removeDuplicates\<close>

lemma foldl_Set_add: "foldl Set_add acc xs = acc @ fresh acc xs"
  by (induction xs arbitrary: acc) (simp_all add: Set_add_def)

lemma set_fresh: "set (fresh seen xs) = set xs - set seen"
  by (induction xs arbitrary: seen) auto

lemma distinct_fresh: "distinct (fresh seen xs)"
  by (induction xs arbitrary: seen) (auto simp: set_fresh)

lemma sorted_fresh:
  "sorted_wrt (\<lambda>x y. first_index xs x < first_index xs y) (fresh seen xs)"
proof (induction xs arbitrary: seen)
  case Nil
  show ?case by simp
next
  case (Cons a xs)
  have shift: "sorted_wrt (\<lambda>x y. first_index (a # xs) x < first_index (a # xs) y) (fresh seen' xs)"
    if "a \<in> set seen'" for seen'
  proof (rule sorted_wrt_mono_rel [OF _ Cons.IH [of seen']])
    fix x y
    assume "x \<in> set (fresh seen' xs)" "y \<in> set (fresh seen' xs)"
      and "first_index xs x < first_index xs y"
    moreover from this that have "x \<noteq> a" "y \<noteq> a" by (auto simp: set_fresh)
    ultimately show "first_index (a # xs) x < first_index (a # xs) y"
      by (simp add: first_index_def)
  qed
  show ?case
  proof (cases "a \<in> set seen")
    case True
    with shift [of seen] show ?thesis by simp
  next
    case False
    have "first_index (a # xs) a < first_index (a # xs) y" if "y \<in> set (fresh (seen @ [a]) xs)" for y
      using that by (auto simp: set_fresh first_index_def)
    with False shift [of "seen @ [a]"] show ?thesis by simp
  qed
qed

lemma new_Set_props:
  "distinct (new_Set elems)" "set (new_Set elems) = set elems"
  "sorted_wrt (\<lambda>x y. first_index elems x < first_index elems y) (new_Set elems)"
  by (simp_all add: new_Set_def foldl_Set_add distinct_fresh set_fresh sorted_fresh)

text \<open>
  Claim C8. For every array, \<open>removeDuplicates\<close> writes no diagnostic and returns a new
  sequence with no repeated element and with the same elements as the input, ordered by
  their first occurrence in the input; elements are equal as the host's set has it, by
  value for primitives and by reference for objects. \<open>removeDuplicates([1,2,2,3,1])\<close> is
  \<open>[1,2,3]\<close>.
\<close>

theorem removeDuplicates_first_occurrences:
  assumes "isArray h arr"
  shows "(\<exists>r. removeDuplicates h arr = ([], ReturnNewArray r)
            \<and> distinct r \<and> set r = set (elements_of h arr)
            \<and> sorted_wrt (\<lambda>x y. first_index (elements_of h arr) x
                                  < first_index (elements_of h arr) y) r)
         \<and> removeDuplicates
              (\<lambda>_. ArrayObj [JNum (Fin 1), JNum (Fin 2), JNum (Fin 2), JNum (Fin 3), JNum (Fin 1)])
              (JObject 0)
            = ([], ReturnNewArray [JNum (Fin 1), JNum (Fin 2), JNum (Fin 3)])"
  using assms by (simp add: removeDuplicates_def new_Set_props) (simp add: new_Set_def Set_add_def)

text \<open>
  In the witness the array holds two references to the object 1, a reference to another
  object 2, a string twice and \<open>NaN\<close> twice.
\<close>

theorem removeDuplicates_first_occurrences_witness:
  "isArray (\<lambda>_. ArrayObj [JObject 1, JStr ''x'', JObject 2, JObject 1, JStr ''x'', JNum NaN, JNum NaN])
     (JObject 0)
   \<and> removeDuplicates
       (\<lambda>_. ArrayObj [JObject 1, JStr ''x'', JObject 2, JObject 1, JStr ''x'', JNum NaN, JNum NaN])
       (JObject 0)
     = ([], ReturnNewArray [JObject 1, JStr ''x'', JObject 2, JNum NaN])"
  using removeDuplicates_first_occurrences
    [of "\<lambda>_. ArrayObj [JObject 1, JStr ''x'', JObject 2, JObject 1, JStr ''x'', JNum NaN, JNum NaN]"
        "JObject 0"]
  by (simp add: removeDuplicates_def new_Set_def Set_add_def)

section \<open>Properties of times\<close>

lemma forEach_funpow: "forEach body xs s = (body ^^ length xs) s"
  by (induction xs arbitrary: s) (simp_all add: funpow_swap1)

lemma Array_from_Array_nat:
  "k < 2 ^ 32 \<Longrightarrow> Array_from_Array (rat_of_nat k) = Some (replicate k JUndefined)"
  unfolding Array_from_Array_def
  by (simp add: of_nat_less_iff [of k "2 ^ 32", where ?'a = rat, simplified])

text \<open>
  Claim C4, as the code has it. If \<open>n\<close> is an integer from 0 to \<open>2^32 - 1\<close> and \<open>func\<close> is
  callable, \<open>times(n, func)\<close> invokes \<open>func\<close> exactly \<open>n\<close> times, one call after the other,
  writes no diagnostic and returns no value. If \<open>n\<close> is not a number or \<open>func\<close> is not
  callable, it writes one diagnostic, returns no value and does not invoke \<open>func\<close>.
\<close>

theorem times_invocations:
  "(k < 2 ^ 32 \<and> typeof h func = ''function''
      \<longrightarrow> times h (Fin (rat_of_nat k)) func body s = (([], Return JUndefined), (body ^^ k) s))
   \<and> (isNaN n \<or> typeof h func \<noteq> ''function''
      \<longrightarrow> (\<exists>msg. times h n func body s = (([msg], Return JUndefined), s)))"
proof -
  have run: "times h (Fin (rat_of_nat k)) func body s = (([], Return JUndefined), (body ^^ k) s)"
    if "k < 2 ^ 32 \<and> typeof h func = ''function''"
  proof -
    from that have "Array_from_Array (rat_of_nat k) = Some (replicate k JUndefined)"
      by (simp add: Array_from_Array_nat)
    with that show ?thesis
      by (simp add: times_def forEach_funpow)
  qed
  have reject: "\<exists>msg. times h n func body s = (([msg], Return JUndefined), s)"
    if "isNaN n \<or> typeof h func \<noteq> ''function''"
    using that by (cases n) (auto simp: times_def)
  from run reject show ?thesis by blast
qed

theorem times_invocations_witness:
  "(3 :: nat) < 2 ^ 32 \<and> typeof (\<lambda>_. FunctionObj) (JObject 0) = ''function''
   \<and> times (\<lambda>_. FunctionObj) (Fin (rat_of_nat 3)) (JObject 0) Suc (0 :: nat) = (([], Return JUndefined), 3)
   \<and> isNaN NaN
   \<and> times (\<lambda>_. FunctionObj) NaN (JObject 0) Suc (0 :: nat)
       = (([''times to run must be specified''], Return JUndefined), 0)"
  using times_invocations [of 3 "\<lambda>_. FunctionObj" "JObject 0" Suc "0 :: nat" NaN]
  by (simp add: times_def numeral_3_eq_3)

text \<open>
  The claim as stated, for every valid number, fails: \<open>-1\<close> passes the \<open>isNaN\<close> test, and
  then \<open>Array(-1)\<close> throws a RangeError.
\<close>

theorem times_negative_counterexample:
  "times (\<lambda>_. FunctionObj) (Fin (- 1)) (JObject 0) Suc (0 :: nat) = (([], Throw RangeError), 0)"
  by (simp add: times_def Array_from_Array_def)

section \<open>Properties of the arithmetic of numbers\<close>

lemma bitlen_eqI:
  assumes "2 ^ n \<le> m" "m < 2 ^ Suc n"
  shows "bitlen m = int n + 1"
proof (rule antisym)
  show "bitlen m \<le> int n + 1"
    using assms(2) by (simp add: bitlen_le_iff_power nat_add_distrib)
  show "int n + 1 \<le> bitlen m"
    using assms(1) by (simp add: bitlen_ge_iff_power nat_add_distrib)
qed

lemma pow2_pos: "0 < pow2 e"
  by (simp add: pow2_def)

lemma binade_eqI:
  assumes "pow2 e \<le> x" "x < pow2 (e + 1)"
  shows "binade x = e"
proof (cases "0 \<le> e")
  case True
  define n where "n = nat e"
  from True have e: "e = int n" by (simp add: n_def)
  from assms have x: "2 ^ n \<le> x" "x < 2 ^ Suc n"
    by (simp_all add: pow2_def e nat_add_distrib)
  have "(1 :: rat) \<le> 2 ^ n" by simp
  with x(1) have x1: "1 \<le> x" by linarith
  have "(2 :: int) ^ n \<le> \<lfloor>x\<rfloor>"
    using x(1) by (simp add: le_floor_iff)
  moreover have "\<lfloor>x\<rfloor> < 2 ^ Suc n"
    using x(2) by (simp add: floor_less_iff)
  ultimately have "bitlen \<lfloor>x\<rfloor> = int n + 1"
    by (rule bitlen_eqI)
  with x1 show ?thesis
    by (simp add: binade_def e)
next
  case False
  define n where "n = nat (- e) - 1"
  from False have e: "e = - int (Suc n)" by (simp add: n_def)
  have p1: "pow2 e = 1 / 2 ^ Suc n" by (simp add: pow2_def e nat_add_distrib)
  have p2: "pow2 (e + 1) = 1 / 2 ^ n" by (simp add: pow2_def e)
  have x0: "0 < x" using assms(1) pow2_pos [of e] by linarith
  have "x < 1"
  proof -
    have "(1 :: rat) / 2 ^ n \<le> 1" by simp
    with assms(2) p2 show ?thesis by linarith
  qed
  have "1 / x \<le> 2 ^ Suc n"
    using assms(1) x0 unfolding p1 by (simp add: field_simps)
  then have "\<lceil>1 / x\<rceil> \<le> 2 ^ Suc n" by (simp add: ceiling_le_iff)
  then have u: "\<lceil>1 / x\<rceil> - 1 < 2 ^ Suc n" by simp
  have "2 ^ n < 1 / x"
    using assms(2) x0 unfolding p2 by (simp add: field_simps)
  then have "2 ^ n < \<lceil>1 / x\<rceil>" by (simp add: less_ceiling_iff)
  then have l: "2 ^ n \<le> \<lceil>1 / x\<rceil> - 1" by simp
  from \<open>x < 1\<close> show ?thesis
    by (simp add: binade_def bitlen_eqI [OF l u] e)
qed

lemma fl_binade:
  assumes "pow2 e \<le> x" "x < pow2 (e + 1)"
  shows "fl x = of_int (round_half_even (x / pow2 (e - 52))) * pow2 (e - 52)"
proof -
  have "0 < x" using assms(1) pow2_pos [of e] by linarith
  then show ?thesis
    by (simp add: fl_def binade_eqI [OF assms] Let_def)
qed

lemma fl_minus: "fl (- x) = - fl x"
  by (simp add: fl_def Let_def)

lemma floor_rat_numeral:
  "\<lfloor>numeral a / numeral b :: rat\<rfloor> = numeral a div numeral b"
  using floor_divide_of_int_eq [of "numeral a" "numeral b", where ?'a = rat] by simp

lemma pow2_nat: "pow2 (int k) = 2 ^ k"
  by (simp add: pow2_def)

lemma pow2_neg: "pow2 (- int k) = 1 / 2 ^ k"
  by (cases k) (simp_all add: pow2_def nat_add_distrib)

lemma pow2_powi: "pow2 e = 2 powi e"
  by (simp add: pow2_def power_int_def inverse_eq_divide power_one_over)

lemma pow2_add: "pow2 (a + b) = pow2 a * pow2 b"
  by (simp add: pow2_powi power_int_add)

lemma pow2_mono: "a \<le> b \<Longrightarrow> pow2 a \<le> pow2 b"
  unfolding pow2_powi by (rule power_int_increasing) simp_all

lemma pow2_less: "a < b \<Longrightarrow> pow2 a < pow2 b"
  unfolding pow2_powi by (rule power_int_strict_increasing) simp_all

lemma bitlen_pos: "1 \<le> m \<Longrightarrow> 1 \<le> bitlen m"
  by (simp add: bitlen_ge_iff_power)

lemma binade_bounds:
  assumes "0 < x"
  shows "pow2 (binade x) \<le> x" and "x < pow2 (binade x + 1)"
proof -
  have "pow2 (binade x) \<le> x \<and> x < pow2 (binade x + 1)"
  proof (cases "1 \<le> x")
    case True
    define m where "m = \<lfloor>x\<rfloor>"
    have m1: "1 \<le> m" using True by (simp add: m_def le_floor_iff)
    then have m0: "0 < m" by simp
    define k where "k = nat (bitlen m) - 1"
    from bitlen_pos [OF m1] have k: "bitlen m = int (Suc k)"
      by (simp add: k_def)
    from bitlen_bounds [OF m0] have b: "2 ^ k \<le> m" "m < 2 ^ Suc k"
      by (simp_all add: k nat_add_distrib)
    have bin: "binade x = int k" using True by (simp add: binade_def m_def [symmetric] k)
    have "(2 :: rat) ^ k \<le> of_int m"
      using b(1) by (simp only: numeral_power_le_of_int_cancel_iff)
    moreover have "of_int m \<le> x" by (simp add: m_def)
    ultimately have lo: "2 ^ k \<le> x" by linarith
    from b(2) have "m + 1 \<le> 2 ^ Suc k" by simp
    then have "rat_of_int (m + 1) \<le> 2 ^ Suc k"
      by (simp only: of_int_le_numeral_power_cancel_iff)
    moreover have "x < of_int (m + 1)" unfolding m_def by linarith
    ultimately have hi: "x < 2 ^ Suc k" by linarith
    have "pow2 (int k + 1) = 2 ^ Suc k"
      using pow2_nat [of "Suc k"] by (simp add: add.commute)
    with lo hi show ?thesis by (simp add: bin pow2_nat)
  next
    case False
    then have x1: "x < 1" by simp
    define m where "m = \<lceil>1 / x\<rceil> - 1"
    have "1 < 1 / x" using assms x1 by (simp add: field_simps)
    then have "1 < \<lceil>1 / x\<rceil>" by (simp add: less_ceiling_iff)
    then have m1: "1 \<le> m" by (simp add: m_def)
    then have m0: "0 < m" by simp
    define k where "k = nat (bitlen m) - 1"
    from bitlen_pos [OF m1] have k: "bitlen m = int (Suc k)"
      by (simp add: k_def)
    from bitlen_bounds [OF m0] have b: "2 ^ k \<le> m" "m < 2 ^ Suc k"
      by (simp_all add: k nat_add_distrib)
    have bin: "binade x = - int (Suc k)"
      using x1 by (simp add: binade_def m_def [symmetric] k)
    have "rat_of_int m < 1 / x" unfolding m_def by linarith
    moreover have "(2 :: rat) ^ k \<le> of_int m"
      using b(1) by (simp only: numeral_power_le_of_int_cancel_iff)
    ultimately have "2 ^ k < 1 / x" by linarith
    then have hi: "x < 1 / 2 ^ k" using assms by (simp add: field_simps)
    from b(2) have "m + 1 \<le> 2 ^ Suc k" by simp
    then have "rat_of_int (m + 1) \<le> 2 ^ Suc k"
      by (simp only: of_int_le_numeral_power_cancel_iff)
    moreover have "1 / x \<le> of_int (m + 1)" unfolding m_def by simp
    ultimately have "1 / x \<le> 2 ^ Suc k" by linarith
    then have lo: "1 / 2 ^ Suc k \<le> x" using assms by (simp add: field_simps)
    have "pow2 (- int (Suc k) + 1) = 1 / 2 ^ k"
      using pow2_neg [of k] by simp
    with lo hi show ?thesis by (simp only: bin pow2_neg)
  qed
  then show "pow2 (binade x) \<le> x" and "x < pow2 (binade x + 1)" by simp_all
qed

lemma round_half_even_bounds:
  "of_int (round_half_even y) \<le> y + 1 / 2" "y - 1 / 2 \<le> of_int (round_half_even y)"
proof -
  define f where "f = \<lfloor>y\<rfloor>"
  have f: "of_int f \<le> y" "y < of_int f + 1" unfolding f_def by linarith+
  have r: "round_half_even y =
      (if y - of_int f < 1 / 2 then f else if 1 / 2 < y - of_int f then f + 1
       else if even f then f else f + 1)"
    by (simp add: round_half_even_def Let_def f_def)
  show "of_int (round_half_even y) \<le> y + 1 / 2"
    unfolding r using f by (auto split: if_splits)
  show "y - 1 / 2 \<le> of_int (round_half_even y)"
    unfolding r using f by (auto split: if_splits)
qed

lemma round_half_even_int: "round_half_even (of_int k) = k"
  by (simp add: round_half_even_def)

lemma fl_pos:
  "0 < x \<Longrightarrow> fl x = of_int (round_half_even (x / pow2 (binade x - 52))) * pow2 (binade x - 52)"
  by (simp add: fl_def Let_def)

lemma fl_int_pos:
  assumes "0 < z" "z < 2 ^ 53"
  shows "fl (of_int z) = of_int z"
proof -
  define x where "x = rat_of_int z"
  have x0: "0 < x" and x1: "1 \<le> x" and xu: "x < 2 ^ 53"
    using assms by (simp_all add: x_def)
  define e where "e = binade x"
  have lo: "pow2 e \<le> x" and hi: "x < pow2 (e + 1)"
    unfolding e_def using binade_bounds [OF x0] by simp_all
  have e0: "0 \<le> e"
  proof (rule ccontr)
    assume "\<not> 0 \<le> e"
    then have "pow2 (e + 1) \<le> pow2 0" by (intro pow2_mono) simp
    with hi x1 show False by (simp add: pow2_def)
  qed
  have e52: "e \<le> 52"
  proof (rule ccontr)
    assume "\<not> e \<le> 52"
    then have "pow2 53 \<le> pow2 e" by (intro pow2_mono) simp
    with lo xu show False by (simp add: pow2_def)
  qed
  define k where "k = nat (52 - e)"
  have "e - 52 = - int k" using e52 by (simp add: k_def)
  then have u: "pow2 (e - 52) = 1 / 2 ^ k" by (simp add: pow2_neg)
  have "x / pow2 (e - 52) = of_int (z * 2 ^ k)"
    by (simp add: u x_def)
  then have "round_half_even (x / pow2 (e - 52)) = z * 2 ^ k"
    by (simp only: round_half_even_int)
  then have "fl x = of_int (z * 2 ^ k) * (1 / 2 ^ k)"
    using fl_pos [OF x0] by (simp add: e_def [symmetric] u)
  then show ?thesis by (simp add: x_def)
qed

lemma fl_int:
  assumes "\<bar>z\<bar> < 2 ^ 53"
  shows "fl (of_int z) = of_int z"
proof (cases "z = 0")
  case True
  then show ?thesis by (simp add: fl_def)
next
  case False
  show ?thesis
  proof (cases "0 < z")
    case True
    with assms show ?thesis by (intro fl_int_pos) simp_all
  next
    case neg: False
    with False assms have "fl (of_int (- z)) = of_int (- z)" by (intro fl_int_pos) simp_all
    then show ?thesis using fl_minus [of "of_int z"] by simp
  qed
qed

lemma random_below_one:
  assumes "fl r = r" "0 \<le> r" "r < 1"
  shows "r \<le> 1 - 1 / 2 ^ 53"
proof (cases "r = 0")
  case True
  then show ?thesis by simp
next
  case False
  with assms have r0: "0 < r" by simp
  define e where "e = binade r"
  define u where "u = pow2 (e - 52)"
  define m where "m = round_half_even (r / u)"
  have lo: "pow2 e \<le> r" and hi: "r < pow2 (e + 1)"
    unfolding e_def using binade_bounds [OF r0] by simp_all
  have u0: "0 < u" by (simp add: u_def pow2_pos)
  have e1: "e \<le> - 1"
  proof (rule ccontr)
    assume "\<not> e \<le> - 1"
    then have "pow2 0 \<le> pow2 e" by (intro pow2_mono) simp
    with lo assms(3) show False by (simp add: pow2_def)
  qed
  have r: "r = of_int m * u"
    using fl_pos [OF r0] assms(1) by (simp add: e_def u_def m_def)
  have "pow2 (e + 1) = pow2 53 * u"
    unfolding u_def using pow2_add [of 53 "e - 52"] by (simp add: add.commute)
  with hi r have "of_int m * u < 2 ^ 53 * u" by (simp add: pow2_def)
  with u0 have "rat_of_int m < 2 ^ 53" by simp
  then have "m < 2 ^ 53" by (simp only: of_int_less_numeral_power_cancel_iff)
  then have "m + 1 \<le> 2 ^ 53" by simp
  then have "rat_of_int (m + 1) \<le> 2 ^ 53"
    by (simp only: of_int_le_numeral_power_cancel_iff)
  then have m: "rat_of_int m \<le> 2 ^ 53 - 1" by simp
  have "u \<le> pow2 (- 53)" unfolding u_def using e1 by (intro pow2_mono) simp
  then have u53: "u \<le> 1 / 2 ^ 53" by (simp add: pow2_def)
  have "of_int m * u \<le> (2 ^ 53 - 1) * u"
    using m u0 by (simp add: mult_right_mono)
  also have "\<dots> \<le> (2 ^ 53 - 1) * (1 / 2 ^ 53)"
    using u53 by (intro mult_left_mono) simp_all
  finally show ?thesis using r by simp
qed

lemma product_below:
  assumes "1 \<le> n" "n < 2 ^ 53" "0 \<le> r" "r \<le> 1 - 1 / 2 ^ 53"
  shows "0 \<le> fl (r * of_int n)" and "fl (r * of_int n) < of_int n"
proof -
  define x where "x = r * rat_of_int n"
  have n0: "0 < rat_of_int n" and nu: "rat_of_int n < 2 ^ 53" using assms(1,2) by simp_all
  have "0 \<le> fl x \<and> fl x < of_int n"
  proof (cases "x = 0")
    case True
    with n0 show ?thesis by (simp add: fl_def)
  next
    case False
    have "0 \<le> x" using assms(1,3) by (simp add: x_def)
    with False have x0: "0 < x" by simp
    have xle: "x \<le> of_int n - of_int n * (1 / 2 ^ 53)"
    proof -
      have "r * of_int n \<le> (1 - 1 / 2 ^ 53) * of_int n"
        using assms(4) n0 by (intro mult_right_mono) simp_all
      then show ?thesis by (simp add: x_def algebra_simps)
    qed
    moreover have "0 < rat_of_int n * (1 / 2 ^ 53)" using n0 by simp
    ultimately have xn: "x < of_int n" by linarith
    define e where "e = binade x"
    define u where "u = pow2 (e - 52)"
    define m where "m = round_half_even (x / u)"
    have lo: "pow2 e \<le> x" and hi: "x < pow2 (e + 1)"
      unfolding e_def using binade_bounds [OF x0] by simp_all
    have u0: "0 < u" by (simp add: u_def pow2_pos)
    have fx: "fl x = of_int m * u"
      using fl_pos [OF x0] by (simp add: e_def u_def m_def)
    have e52: "e \<le> 52"
    proof (rule ccontr)
      assume "\<not> e \<le> 52"
      then have "pow2 53 \<le> pow2 e" by (intro pow2_mono) simp
      with lo xn nu show False by (simp add: pow2_def)
    qed
    define k where "k = nat (52 - e)"
    have "e - 52 = - int k" using e52 by (simp add: k_def)
    then have u: "u = 1 / 2 ^ k" by (simp add: u_def pow2_neg)
    have half: "u / 2 = pow2 e * (1 / 2 ^ 53)"
    proof -
      have "pow2 (e - 52) = pow2 e * pow2 (- 52)" using pow2_add [of e "- 52"] by simp
      then show ?thesis by (simp add: u_def pow2_def)
    qed
    have "pow2 e < of_int n" using lo xn by linarith
    then have "pow2 e * (1 / 2 ^ 53) < of_int n * (1 / 2 ^ 53)"
      by (intro mult_strict_right_mono) simp_all
    with xle half have gap: "x + u / 2 < of_int n" by linarith
    have "of_int m \<le> x / u + 1 / 2" unfolding m_def by (rule round_half_even_bounds)
    then have "of_int m * u \<le> (x / u + 1 / 2) * u"
      using u0 by (intro mult_right_mono) simp_all
    also have "\<dots> = x + u / 2" using u0 by (simp add: field_simps)
    finally have "of_int m * u < of_int n" using gap by linarith
    then have "of_int m < rat_of_int n * 2 ^ k"
      by (simp add: u field_simps)
    then have "rat_of_int m < of_int (n * 2 ^ k)" by simp
    then have "m < n * 2 ^ k" by (simp only: of_int_less_iff)
    then have "m + 1 \<le> n * 2 ^ k" by simp
    then have "rat_of_int (m + 1) \<le> of_int (n * 2 ^ k)" by (simp only: of_int_le_iff)
    then have "(of_int m + 1) * u \<le> of_int n"
      by (simp add: u field_simps)
    then have up: "of_int m * u < of_int n" using u0 by (simp add: algebra_simps)
    have "x / u - 1 / 2 \<le> of_int m" unfolding m_def by (rule round_half_even_bounds)
    moreover have "0 \<le> x / u" using x0 u0 by simp
    ultimately have "- 1 < rat_of_int m" by linarith
    then have "0 \<le> m" by linarith
    then have "0 \<le> of_int m * u" using u0 by simp
    with up show ?thesis by (simp add: fx)
  qed
  then show "0 \<le> fl (r * of_int n)" and "fl (r * of_int n) < of_int n"
    by (simp_all add: x_def)
qed

lemma fl_numeral:
  "numeral w < (2 :: int) ^ 53 \<Longrightarrow> fl (numeral w) = numeral w"
  using fl_int [of "numeral w"] by simp

lemma fl_one: "fl 1 = 1"
  using fl_int [of 1] by simp

section \<open>Properties of getRandomNumberInRange\<close>

lemma getRandomNumberInRange_value:
  assumes "- (2 ^ 52) < \<lceil>lo\<rceil>" "\<lceil>lo\<rceil> \<le> \<lfloor>up\<rfloor>" "\<lfloor>up\<rfloor> < 2 ^ 52"
    and "0 \<le> random" "random < 1" "fl random = random"
  shows "\<exists>v :: int. getRandomNumberInRange (Fin lo) (Fin up) random
             = ([], Return (JNum (Fin (of_int v))))
           \<and> \<lceil>lo\<rceil> \<le> v \<and> v \<le> \<lfloor>up\<rfloor>"
proof -
  define L where "L = \<lceil>lo\<rceil>"
  define U where "U = \<lfloor>up\<rfloor>"
  define n where "n = U - L + 1"
  have LU: "- (2 ^ 52) < L" "L \<le> U" "U < 2 ^ 52" using assms(1-3) by (simp_all add: L_def U_def)
  have n: "1 \<le> n" "n < 2 ^ 53" using LU by (simp_all add: n_def)
  have "js_sub (of_int U) (of_int L) = fl (of_int (U - L))" by (simp add: js_sub_def)
  also have "\<dots> = of_int (U - L)" using LU by (intro fl_int) simp
  finally have width: "js_sub (of_int U) (of_int L) = of_int (U - L)" .
  have "js_add (of_int (U - L)) 1 = fl (of_int n)" by (simp add: js_add_def n_def)
  also have "\<dots> = of_int n" using n by (intro fl_int) simp
  finally have span: "js_add (js_sub (of_int U) (of_int L)) 1 = of_int n" by (simp add: width)
  define p where "p = js_mul random (of_int n)"
  define k where "k = \<lfloor>p\<rfloor>"
  from random_below_one [OF assms(6,4,5)] have r: "random \<le> 1 - 1 / 2 ^ 53" .
  from product_below [OF n assms(4) r] have p: "0 \<le> p" "p < of_int n"
    by (simp_all add: p_def js_mul_def)
  have k: "0 \<le> k" "k \<le> n - 1"
    using p by (simp_all add: k_def floor_less_iff)
  have "js_add (of_int k) (of_int L) = fl (of_int (k + L))" by (simp add: js_add_def)
  also have "\<dots> = of_int (k + L)" using k LU by (intro fl_int) (simp add: n_def)
  finally have res: "js_add (of_int k) (of_int L) = of_int (k + L)" .
  have "getRandomNumberInRange (Fin lo) (Fin up) random = ([], Return (JNum (Fin (of_int (k + L)))))"
    by (simp add: getRandomNumberInRange_def Let_def L_def [symmetric] U_def [symmetric] span
        p_def [symmetric] k_def [symmetric] res)
  moreover have "L \<le> k + L" "k + L \<le> U" using k by (simp_all add: n_def)
  ultimately show ?thesis unfolding L_def U_def by blast
qed

text \<open>
  Claim C5, as the code has it. For all bounds with
  \<open>-2^52 < ceil(lower) \<le> floor(upper) < 2^52\<close> and every number in \<open>[0, 1)\<close> drawn from the
  pseudo-random source, the result is an integer within \<open>[ceil(lower), floor(upper)]\<close>;
  \<open>getRandomNumberInRange(2, 2)\<close> is always 2. In this range the differences and sums of
  the function are exact, and the rounded product of the draw and the width stays below
  the width.
\<close>

theorem getRandomNumberInRange_in_range:
  "(- (2 ^ 52) < \<lceil>lo\<rceil> \<and> \<lceil>lo\<rceil> \<le> \<lfloor>up\<rfloor> \<and> \<lfloor>up\<rfloor> < 2 ^ 52
      \<and> 0 \<le> random \<and> random < 1 \<and> fl random = random
      \<longrightarrow> (\<exists>v :: int. getRandomNumberInRange (Fin lo) (Fin up) random
                           = ([], Return (JNum (Fin (of_int v))))
                       \<and> \<lceil>lo\<rceil> \<le> v \<and> v \<le> \<lfloor>up\<rfloor>))
   \<and> (0 \<le> random \<and> random < 1 \<and> fl random = random
      \<longrightarrow> getRandomNumberInRange (Fin 2) (Fin 2) random = ([], Return (JNum (Fin 2))))"
proof -
  have b: "getRandomNumberInRange (Fin 2) (Fin 2) random = ([], Return (JNum (Fin 2)))"
    if "0 \<le> random \<and> random < 1 \<and> fl random = random"
  proof -
    from that getRandomNumberInRange_value [of 2 2 random] obtain v :: int where
      "getRandomNumberInRange (Fin 2) (Fin 2) random = ([], Return (JNum (Fin (of_int v))))"
      "2 \<le> v" "v \<le> 2" by auto
    then show ?thesis by simp
  qed
  from getRandomNumberInRange_value [of lo up random] b show ?thesis by blast
qed

text \<open>
  In the witness the product of the draw and the width 3 is \<open>2 - 2^-53\<close>, which is not a
  number: it rounds to 2, and the result is 2 where exact arithmetic gives 1.
\<close>

theorem getRandomNumberInRange_in_range_witness:
  "fl (6004799503160661 / 9007199254740992) = 6004799503160661 / 9007199254740992
   \<and> getRandomNumberInRange (Fin 0) (Fin 2) (6004799503160661 / 9007199254740992)
       = ([], Return (JNum (Fin 2)))
   \<and> getRandomNumberInRange (Fin 2) (Fin 2) (6004799503160661 / 9007199254740992)
       = ([], Return (JNum (Fin 2)))"
proof -
  have r: "fl (6004799503160661 / 9007199254740992) = 6004799503160661 / 9007199254740992"
    by (simp add: fl_binade [where e = "- 1"] pow2_def round_half_even_def)
  have p: "fl (18014398509481983 / 9007199254740992) = 2"
    by (simp add: fl_binade [where e = 0] pow2_def round_half_even_def Let_def floor_rat_numeral)
  have "getRandomNumberInRange (Fin 0) (Fin 2) (6004799503160661 / 9007199254740992)
       = ([], Return (JNum (Fin 2)))"
    by (simp add: getRandomNumberInRange_def js_add_def js_sub_def js_mul_def fl_numeral fl_one p)
  with r getRandomNumberInRange_in_range
    [of 0 2 "6004799503160661 / 9007199254740992"]
  show ?thesis by simp
qed

text \<open>
  The claim as stated, for all valid bounds, fails when the bounds are reversed: with
  \<open>lower = 5\<close>, \<open>upper = 1\<close> and the draw \<open>0.5\<close> the result is 3, which is not in
  \<open>[5, 1]\<close>.
\<close>

theorem getRandomNumberInRange_reversed_counterexample:
  "getRandomNumberInRange (Fin 5) (Fin 1) (1 / 2) = ([], Return (JNum (Fin 3)))
   \<and> \<not> (\<lceil>5 :: rat\<rceil> \<le> 3 \<and> 3 \<le> \<lfloor>1 :: rat\<rfloor>)"
proof -
  have f: "\<lfloor>- (3 / 2) :: rat\<rfloor> = - 2"
    by (rule floor_unique) simp_all
  have p: "fl (3 / 2) = 3 / 2"
    by (simp add: fl_binade [where e = 0] pow2_def round_half_even_def)
  show ?thesis
    by (simp add: getRandomNumberInRange_def js_add_def js_sub_def js_mul_def fl_minus
        fl_numeral p f)
qed

section \<open>Invalid arguments\<close>

text \<open>
  Claim C1, as the code has it. Of the functions that validate their arguments,
  \<open>times\<close> (a \<open>NaN\<close> count or a value that is not callable), \<open>getRandomNumberInRange\<close>
  (a \<open>NaN\<close> bound), \<open>shorten\<close> (a \<open>NaN\<close> length or ellipsis count, the text being a string)
  and \<open>removeDuplicates\<close> (a value that is not an array) write one diagnostic and return
  no result, and \<open>times\<close> leaves the state as it was: nothing is invoked. On a text that is
  not a string, \<open>shorten\<close> writes one diagnostic and returns the empty string, and
  \<open>slugify\<close>, \<open>camelToSnakeCase\<close>, \<open>snakeToCamelCase\<close> and \<open>stringToColor\<close> write one
  diagnostic and return their argument unchanged.
\<close>

theorem invalid_argument_outcomes:
  "(isNaN n \<or> typeof h func \<noteq> ''function''
      \<longrightarrow> (\<exists>msg. times h n func body s = (([msg], Return JUndefined), s)))
   \<and> (isNaN lower \<or> isNaN upper
      \<longrightarrow> (\<exists>msg. getRandomNumberInRange lower upper random = ([msg], Return JUndefined)))
   \<and> (is_string h text \<and> (isNaN len \<or> isNaN ellipsisCount)
      \<longrightarrow> (\<exists>msg. shorten h text len ellipsisCount = ([msg], Return JUndefined)))
   \<and> (\<not> isArray h arr
      \<longrightarrow> (\<exists>msg. removeDuplicates h arr = ([msg], Return JUndefined)))
   \<and> (\<not> is_string h text
      \<longrightarrow> (\<exists>msg. shorten h text len ellipsisCount = ([msg], Return (JStr [])))
        \<and> (\<exists>msg. slugify h text = ([msg], Return text))
        \<and> (\<exists>msg. camelToSnakeCase h text = ([msg], Return text))
        \<and> (\<exists>msg. snakeToCamelCase h text = ([msg], Return text))
        \<and> (\<exists>msg. stringToColor h text = ([msg], Return text)))"
proof -
  have 1: "\<exists>msg. times h n func body s = (([msg], Return JUndefined), s)"
    if "isNaN n \<or> typeof h func \<noteq> ''function''"
    using that by (cases n) (auto simp: times_def)
  have 2: "\<exists>msg. getRandomNumberInRange lower upper random = ([msg], Return JUndefined)"
    if "isNaN lower \<or> isNaN upper"
    using that by (cases lower; cases upper) (auto simp: getRandomNumberInRange_def)
  have 3: "\<exists>msg. shorten h text len ellipsisCount = ([msg], Return JUndefined)"
    if "is_string h text \<and> (isNaN len \<or> isNaN ellipsisCount)"
    using that by (cases len; cases ellipsisCount) (auto simp: shorten_def)
  have 4: "\<exists>msg. removeDuplicates h arr = ([msg], Return JUndefined)"
    if "\<not> isArray h arr"
    using that by (simp add: removeDuplicates_def)
  have 5: "(\<exists>msg. shorten h text len ellipsisCount = ([msg], Return (JStr [])))
        \<and> (\<exists>msg. slugify h text = ([msg], Return text))
        \<and> (\<exists>msg. camelToSnakeCase h text = ([msg], Return text))
        \<and> (\<exists>msg. snakeToCamelCase h text = ([msg], Return text))
        \<and> (\<exists>msg. stringToColor h text = ([msg], Return text))"
    if "\<not> is_string h text"
    using that
    by (simp add: shorten_def slugify_def camelToSnakeCase_def snakeToCamelCase_def
        stringToColor_def)
  from 1 2 3 4 5 show ?thesis by blast
qed

theorem invalid_argument_outcomes_witness:
  "times (\<lambda>_. PlainObj) (Fin 2) (JObject 0) Suc (0 :: nat)
     = (([''func must be a valid function, object provided''], Return JUndefined), 0)
   \<and> getRandomNumberInRange NaN (Fin 1) (1 / 2)
     = ([''lower and upper must be valid numbers''], Return JUndefined)
   \<and> shorten (\<lambda>_. PlainObj) (JStr ''abc'') NaN (Fin 3)
     = ([''length and ellipsisCount must be valid numbers''], Return JUndefined)
   \<and> removeDuplicates (\<lambda>_. PlainObj) (JStr ''abc'')
     = ([''array expected, string provided''], Return JUndefined)
   \<and> shorten (\<lambda>_. PlainObj) (JNum (Fin 5)) (Fin 10) (Fin 3)
     = ([''expecting a string, number provided''], Return (JStr []))
   \<and> slugify (\<lambda>_. PlainObj) (JNum (Fin 5))
     = ([''string expected, number provided''], Return (JNum (Fin 5)))"
  using invalid_argument_outcomes [of "Fin 2" "\<lambda>_. PlainObj" "JObject 0" Suc "0 :: nat"
      NaN "Fin 1" "1 / 2" "JStr ''abc''" NaN "Fin 3" "JStr ''abc''"]
    invalid_argument_outcomes [of "Fin 2" "\<lambda>_. PlainObj" "JObject 0" Suc "0 :: nat"
      NaN "Fin 1" "1 / 2" "JNum (Fin 5)" "Fin 10" "Fin 3" "JStr ''abc''"]
  by (simp add: times_def getRandomNumberInRange_def shorten_def removeDuplicates_def slugify_def)

text \<open>
  The claim as stated fails: on the number 5, \<open>shorten\<close> returns the empty string and
  \<open>slugify\<close> returns the 5, neither of which is \<open>undefined\<close>.
\<close>

theorem shorten_non_string_counterexample:
  "shorten (\<lambda>_. PlainObj) (JNum (Fin 5)) (Fin 10) (Fin 3)
     = ([''expecting a string, number provided''], Return (JStr []))
   \<and> slugify (\<lambda>_. PlainObj) (JNum (Fin 5))
     = ([''string expected, number provided''], Return (JNum (Fin 5)))
   \<and> JStr [] \<noteq> JUndefined \<and> JNum (Fin 5) \<noteq> JUndefined"
  by (simp add: shorten_def slugify_def)

section \<open>Properties of camelToSnakeCase and snakeToCamelCase\<close>

lemma upper_of_lower:
  assumes "is_lower b"
  shows "is_upper (char_of (charCode b - 32))"
    and "char_of (charCode (char_of (charCode b - 32) :: char) + 32) = b"
    and "(char_of (charCode b - 32) :: char) \<noteq> CHR ''-''"
    and "\<not> is_upper b" and "b \<noteq> CHR ''-''" and "b \<noteq> CHR ''_''"
proof -
  from assms have b: "97 \<le> (of_char b :: nat)" "(of_char b :: nat) \<le> 122"
    by (simp_all add: is_lower_def charCode_def)
  then have m: "(of_char b - 32 :: nat) mod 256 = of_char b - 32" by simp
  from b have "65 \<le> (of_char b - 32 :: nat)" "(of_char b - 32 :: nat) \<le> 90" by arith+
  then show "is_upper (char_of (charCode b - 32))"
    by (simp add: is_upper_def charCode_def m)
  have "(of_char b - 32 :: nat) + 32 = of_char b" using b by simp
  then show "char_of (charCode (char_of (charCode b - 32) :: char) + 32) = b"
    by (simp add: charCode_def m)
  show "(char_of (charCode b - 32) :: char) \<noteq> CHR ''-''"
  proof
    assume "(char_of (charCode b - 32) :: char) = CHR ''-''"
    then have "(of_char (char_of (charCode b - 32) :: char) :: nat) = of_char CHR ''-''" by simp
    with b show False by (simp add: charCode_def m)
  qed
  from b show "\<not> is_upper b" by (simp add: is_upper_def charCode_def)
  from b show "b \<noteq> CHR ''-''" "b \<noteq> CHR ''_''" by auto
qed

lemma not_upper_underscore: "\<not> is_upper CHR ''_''" "\<not> is_lower CHR ''_''"
  by (simp_all add: is_upper_def is_lower_def charCode_def)

lemma no_lower:
  "is_lower c \<Longrightarrow> \<not> has_lower c" "\<not> has_lower CHR ''_''"
  by (auto simp: has_lower_def is_lower_def is_upper_def charCode_def)

lemma toLowerCase_id:
  "\<forall>c \<in> set s. is_lower c \<or> c = CHR ''_'' \<Longrightarrow> toLowerCase s = s"
  by (induction s) (auto simp: toLowerCase_def no_lower)

lemma camel_replace_Cons:
  "camel_replace (c # cs) =
     (if is_upper c then CHR ''_'' # toLowerCase [c] else [c]) @ camel_replace cs"
  by (simp add: camel_replace_def)

lemma camel_snake_replace:
  "\<forall>c \<in> set s. is_lower c \<or> c = CHR ''_'' \<Longrightarrow> camel_replace (snake_replace s) = s"
proof (induction s rule: snake_replace.induct)
  case (1 a b rest)
  show ?case
  proof (cases "(a = CHR ''-'' \<or> a = CHR ''_'') \<and> is_lower b")
    case True
    with 1 have a: "a = CHR ''_''" using upper_of_lower(5) by auto
    from True have lb: "is_lower b" by simp
    have "snake_replace (a # b # rest) = char_of (charCode b - 32) # snake_replace rest"
      using lb upper_of_lower(3) [OF lb]
      by (simp add: a toUpperCase_def not_upper_underscore)
    moreover have "camel_replace (snake_replace rest) = rest"
      using 1 True by simp
    ultimately show ?thesis
      using upper_of_lower(1,2) [OF lb]
      by (simp add: camel_replace_Cons toLowerCase_def has_lower_def a)
  next
    case False
    have "\<not> is_upper a" using 1(3) upper_of_lower(4) not_upper_underscore by auto
    moreover have "camel_replace (snake_replace (b # rest)) = b # rest"
      using 1 False by simp
    moreover have "snake_replace (a # b # rest) = a # snake_replace (b # rest)"
      using False by (simp only: snake_replace.simps if_False)
    ultimately show ?thesis
      by (simp only: camel_replace_Cons if_False append.simps)
  qed
qed (auto simp: camel_replace_def upper_of_lower(4) not_upper_underscore)

text \<open>
  Claim C7, as the code has it. For every string composed only of lowercase letters and
  underscores, \<open>camelToSnakeCase(snakeToCamelCase(s)) = s\<close>;
  \<open>camelToSnakeCase("helloWorld")\<close> is \<open>"hello_world"\<close> and \<open>snakeToCamelCase("hello_world")\<close>
  is \<open>"helloWorld"\<close>.
\<close>

theorem snake_camel_round_trip:
  assumes "\<forall>c \<in> set s. is_lower c \<or> c = CHR ''_''"
  shows "(\<exists>t. snakeToCamelCase h (JStr s) = ([], Return (JStr t))
            \<and> camelToSnakeCase h (JStr t) = ([], Return (JStr s)))
         \<and> camelToSnakeCase h (JStr ''helloWorld'') = ([], Return (JStr ''hello_world''))
         \<and> snakeToCamelCase h (JStr ''hello_world'') = ([], Return (JStr ''helloWorld''))"
proof -
  have "camelToSnakeCase h (JStr (snake_replace (toLowerCase s))) = ([], Return (JStr s))"
    using assms by (simp add: camelToSnakeCase_def toLowerCase_id camel_snake_replace)
  moreover have "camelToSnakeCase h (JStr ''helloWorld'') = ([], Return (JStr ''hello_world''))"
    by (simp add: camelToSnakeCase_def camel_replace_def is_upper_def charCode_def toLowerCase_def has_lower_def char_of_def bit_Suc_0_iff)
  moreover have "snakeToCamelCase h (JStr ''hello_world'') = ([], Return (JStr ''helloWorld''))"
    by (simp add: snakeToCamelCase_def toLowerCase_def has_lower_def toUpperCase_def is_upper_def is_lower_def
        charCode_def char_of_def bit_Suc_0_iff)
  ultimately show ?thesis by (simp add: snakeToCamelCase_def)
qed

theorem snake_camel_round_trip_witness:
  "snakeToCamelCase (\<lambda>_. PlainObj) (JStr ''ab_cd_e'') = ([], Return (JStr ''abCdE''))
   \<and> camelToSnakeCase (\<lambda>_. PlainObj) (JStr ''abCdE'') = ([], Return (JStr ''ab_cd_e''))"
proof -
  have a: "\<forall>c \<in> set ''ab_cd_e''. is_lower c \<or> c = CHR ''_''"
    by (simp add: is_lower_def charCode_def)
  have b: "snakeToCamelCase (\<lambda>_. PlainObj) (JStr ''ab_cd_e'') = ([], Return (JStr ''abCdE''))"
    by (simp add: snakeToCamelCase_def toLowerCase_def has_lower_def toUpperCase_def is_upper_def is_lower_def
        charCode_def char_of_def bit_Suc_0_iff)
  from snake_camel_round_trip [OF a, of "\<lambda>_. PlainObj"] b show ?thesis
    by auto
qed

text \<open>
  The claim as stated, for every single-character separator, fails for the hyphen, which
  \<open>snakeToCamelCase\<close> removes as it removes the underscore and \<open>camelToSnakeCase\<close> gives
  back as an underscore.
\<close>

theorem snake_camel_hyphen_counterexample:
  "snakeToCamelCase (\<lambda>_. PlainObj) (JStr ''a-b'') = ([], Return (JStr ''aB''))
   \<and> camelToSnakeCase (\<lambda>_. PlainObj) (JStr ''aB'') = ([], Return (JStr ''a_b''))
   \<and> ''a_b'' \<noteq> ''a-b''"
  by (simp add: snakeToCamelCase_def camelToSnakeCase_def camel_replace_def toLowerCase_def has_lower_def
      toUpperCase_def is_upper_def is_lower_def charCode_def char_of_def bit_Suc_0_iff)

section \<open>Properties of stringToColor\<close>













section \<open>Properties of getTimeBetween\<close>

lemmas fl_eval =
  fl_binade [where e = "- 19"] fl_binade [where e = "- 15"] fl_binade [where e = "- 10"]
  fl_binade [where e = "- 6"] fl_binade [where e = "- 4"] fl_binade [where e = "- 1"]
  fl_binade [where e = 0] fl_binade [where e = 4] fl_binade [where e = 6]
  fl_binade [where e = 8] fl_binade [where e = 9] fl_binade [where e = 10]
  fl_binade [where e = 11] fl_binade [where e = 13] fl_binade [where e = 15]
  fl_binade [where e = 16] fl_binade [where e = 19] fl_binade [where e = 21]
  fl_binade [where e = 24] fl_binade [where e = 26] fl_binade [where e = 31]
  fl_binade [where e = 34] floor_rat_numeral

lemma intervals_value:
  "intervals = \<lparr> year = 31557600000, month = 5515543314432001 / 2097152, day = 86400000,
       hour = 3600000, minute = 60000, second = 1000 \<rparr>"
  by (simp add: intervals_def js_mul_def fl_eval pow2_def round_half_even_def Let_def)

lemma getTimeBetween_difference: "getTimeBetween a b = getTimeBetween 0 (b - a)"
  by (simp add: getTimeBetween_def js_sub_def)

lemma getTimeBetween_sym: "getTimeBetween a b = getTimeBetween b a"
proof -
  have "\<bar>js_sub (of_int a) (of_int b)\<bar> = \<bar>js_sub (of_int b) (of_int a)\<bar>"
    using fl_minus [of "of_int a - of_int b"] by (simp add: js_sub_def)
  then show ?thesis by (simp add: getTimeBetween_def)
qed

lemma toString_small:
  "toString 0 = ''0''" "toString 1 = ''1''" "toString 30 = ''30''"
  by (simp_all add: toString_def nat_toString.simps digit_char_def)

lemma elapsed_0: "elapsed 0 = \<lparr> year = 0, month = 0, day = 0, hour = 0, minute = 0, second = 0 \<rparr>"
  by (simp add: elapsed_def js_div_def fl_def)

lemma elapsed_90000:
  "elapsed 90000 = \<lparr> year = 0, month = 0, day = 0, hour = 0, minute = 1, second = 90 \<rparr>"
  by (simp add: elapsed_def intervals_value js_div_def fl_eval pow2_def round_half_even_def Let_def)

lemma elapsed_boundary:
  "elapsed 2630016000 =
     \<lparr> year = 0, month = 0, day = 30, hour = 730, minute = 43833, second = 2630016 \<rparr>"
  by (simp add: elapsed_def intervals_value js_div_def fl_eval pow2_def round_half_even_def Let_def)

lemma timeDiff_values:
  "fl 0 = 0" "\<bar>fl (- 90000)\<bar> = 90000" "\<bar>fl (- 2630016000)\<bar> = 2630016000"
  by (simp_all add: fl_minus fl_eval pow2_def round_half_even_def Let_def) (simp add: fl_def)

lemma getTimeBetween_examples:
  "getTimeBetween d (d + 90000) = ''1 minute''" "getTimeBetween d d = ''0 seconds''"
proof -
  have "getTimeBetween 0 90000 = ''1 minute''"
    by (simp add: getTimeBetween_def js_sub_def timeDiff_values elapsed_90000 toString_small)
  then show "getTimeBetween d (d + 90000) = ''1 minute''"
    using getTimeBetween_difference [of d "d + 90000"] by simp
  have "getTimeBetween 0 0 = ''0 seconds''"
    by (simp add: getTimeBetween_def js_sub_def timeDiff_values elapsed_0 toString_small)
  then show "getTimeBetween d d = ''0 seconds''"
    using getTimeBetween_difference [of d d] by simp
qed

lemma spec_boundary: "spec_getTimeBetween 0 2630016000 = ''1 month''"
  by (simp add: spec_getTimeBetween_def spec_intervals_def toString_small floor_rat_numeral)

text \<open>
  Claim C3 at the boundary of the month. The product \<open>30.44 * 24 * 60 * 60 * 1000\<close>,
  evaluated from left to right in the arithmetic of numbers, is not the 2630016000
  milliseconds of 30.44 days but \<open>5515543314432001 / 2097152\<close>, about half a millionth of a
  millisecond more (\<open>intervals_value\<close>). For two dates exactly 30.44 days apart the count of
  months is therefore 0, the day is the largest unit with a count above zero, and the code
  returns \<open>"30 days"\<close> where a month of 30.44 days gives \<open>"1 month"\<close>. The examples of the
  claim and the symmetry hold (\<open>getTimeBetween_examples\<close>, \<open>getTimeBetween_sym\<close>).
\<close>

theorem getTimeBetween_month_boundary:
  "getTimeBetween 0 2630016000 = ''30 days''
   \<and> spec_getTimeBetween 0 2630016000 = ''1 month''"
  by (simp add: spec_boundary getTimeBetween_def js_sub_def timeDiff_values elapsed_boundary
      toString_small)

end
